theory Spec2Isabelle
  imports Complex_Main "HOL-Library.Sublist"
begin

section \<open>Python values used by the server\<close>

subsection \<open>Strings\<close>

text \<open>
  Log lines, keys and messages are Python \<open>str\<close> values. A \<open>str\<close> is modelled by
  its UTF-8 encoding: a \<open>string\<close> whose elements are the bytes, so that an ASCII
  character is one element and any other character is a lead byte followed by
  continuation bytes (\<open>0x80\<close> to \<open>0xBF\<close>). Searching, comparing, prefixes and
  suffixes are the same on the bytes as on the characters. Lengths and slices
  count characters, through \<open>chars\<close>.
\<close>

definition is_continuation :: "char \<Rightarrow> bool" where
  "is_continuation c = (128 \<le> (of_char c :: nat) \<and> (of_char c :: nat) < 192)"

text \<open>The characters of a string, each with its bytes.\<close>

function chars :: "string \<Rightarrow> string list" where
  "chars [] = []"
| "chars (c # cs) =
     (c # takeWhile is_continuation cs) # chars (dropWhile is_continuation cs)"
  by pat_completeness auto
termination
  by (relation "measure length") (auto simp: length_dropWhile_le less_Suc_eq_le)

text \<open>\<open>len(s)\<close>, \<open>s[:n]\<close> and \<open>s[n:]\<close> for \<open>n \<ge> 0\<close>.\<close>

definition py_len :: "string \<Rightarrow> nat" where
  "py_len s = length (chars s)"


definition slice_from :: "nat \<Rightarrow> string \<Rightarrow> string" where
  "slice_from n s = concat (drop n (chars s))"

text \<open>
  \<open>lower\<close> and \<open>upper\<close> change the 26 ASCII letters and leave every other byte
  as it is. The code only searches the results for ASCII words (the keywords of
  the classifier, \<open>COMPLETE\<close>, three file extensions); the characters outside
  ASCII that \<open>str.lower\<close> or \<open>str.upper\<close> turn into ASCII letters are few, and
  none of them completes one of these words, so the searches have the same answers.
\<close>

definition is_upper :: "char \<Rightarrow> bool" where
  "is_upper c = (65 \<le> (of_char c :: nat) \<and> (of_char c :: nat) \<le> 90)"

definition is_lower :: "char \<Rightarrow> bool" where
  "is_lower c = (97 \<le> (of_char c :: nat) \<and> (of_char c :: nat) \<le> 122)"

definition lower_char :: "char \<Rightarrow> char" where
  "lower_char c = (if is_upper c then char_of ((of_char c :: nat) + 32) else c)"

definition upper_char :: "char \<Rightarrow> char" where
  "upper_char c = (if is_lower c then char_of ((of_char c :: nat) - 32) else c)"

definition lower :: "string \<Rightarrow> string" where
  "lower s = map lower_char s"

definition upper :: "string \<Rightarrow> string" where
  "upper s = map upper_char s"

text \<open>\<open>substring_in w s\<close> is Python's \<open>w in s\<close> on strings.\<close>

fun substring_in :: "string \<Rightarrow> string \<Rightarrow> bool" where
  "substring_in w [] = (w = [])"
| "substring_in w (c # cs) = (prefix w (c # cs) \<or> substring_in w cs)"

text \<open>
  The characters for which \<open>str.isspace\<close> holds, which \<open>str.strip\<close> removes at
  both ends: U+0009 to U+000D, U+001C to U+0020, U+0085, U+00A0, U+1680, U+2000 to
  U+200A, U+2028, U+2029, U+202F, U+205F and U+3000.
\<close>

definition whitespace :: "string list" where
  "whitespace =
     [[CHR 0x09], [CHR 0x0A], [CHR 0x0B], [CHR 0x0C], [CHR 0x0D],
      [CHR 0x1C], [CHR 0x1D], [CHR 0x1E], [CHR 0x1F], [CHR 0x20],
      [CHR 0xC2, CHR 0x85], [CHR 0xC2, CHR 0xA0], [CHR 0xE1, CHR 0x9A, CHR 0x80],
      [CHR 0xE2, CHR 0x80, CHR 0x80], [CHR 0xE2, CHR 0x80, CHR 0x81],
      [CHR 0xE2, CHR 0x80, CHR 0x82], [CHR 0xE2, CHR 0x80, CHR 0x83],
      [CHR 0xE2, CHR 0x80, CHR 0x84], [CHR 0xE2, CHR 0x80, CHR 0x85],
      [CHR 0xE2, CHR 0x80, CHR 0x86], [CHR 0xE2, CHR 0x80, CHR 0x87],
      [CHR 0xE2, CHR 0x80, CHR 0x88], [CHR 0xE2, CHR 0x80, CHR 0x89],
      [CHR 0xE2, CHR 0x80, CHR 0x8A], [CHR 0xE2, CHR 0x80, CHR 0xA8],
      [CHR 0xE2, CHR 0x80, CHR 0xA9], [CHR 0xE2, CHR 0x80, CHR 0xAF],
      [CHR 0xE2, CHR 0x81, CHR 0x9F], [CHR 0xE3, CHR 0x80, CHR 0x80]]"

definition is_space :: "string \<Rightarrow> bool" where
  "is_space ch = List.member whitespace ch"

definition strip :: "string \<Rightarrow> string" where
  "strip s = concat (rev (dropWhile is_space (rev (dropWhile is_space (chars s)))))"




definition rstrip_slash :: "string \<Rightarrow> string" where
  "rstrip_slash s = rev (dropWhile (\<lambda>c. c = CHR ''/'') (rev s))"

text \<open>\<open>str(n)\<close> for a Python int.\<close>

fun str_nat :: "nat \<Rightarrow> string" where
  "str_nat n =
     (if n < 10 then [char_of (48 + n)]
      else str_nat (n div 10) @ [char_of (48 + n mod 10)])"

declare str_nat.simps [simp del]

definition str_int :: "int \<Rightarrow> string" where
  "str_int i = (if i < 0 then CHR ''-'' # str_nat (nat (- i)) else str_nat (nat i))"

subsection \<open>Exceptions\<close>

text \<open>
  The handlers of the server only ever read \<open>str(e)\<close>. The two exceptions the
  arithmetic of the server itself can raise have constructors of their own;
  \<open>Exception msg\<close> stands for any other exception whose \<open>str\<close> is \<open>msg\<close>
  (those raised by the subprocess, object-storage and model libraries).
\<close>

datatype py_exception =
    ZeroDivisionError
  | OverflowError string
  | Exception string

fun str_exc :: "py_exception \<Rightarrow> string" where
  "str_exc ZeroDivisionError = ''division by zero''"
| "str_exc (OverflowError msg) = msg"
| "str_exc (Exception msg) = msg"

subsection \<open>Floats\<close>

text \<open>
  \<open>articlesFound / self.max_articles\<close> is Python's true division of two ints and
  yields a float (IEEE 754 binary64); the product with 65 and the sum with 15 are
  float operations. A finite float is modelled by the rational it denotes, and every
  operation rounds its exact result to the nearest binary64 value, ties to even:
  53 bits of precision, least exponent \<open>-1074\<close>, and overflow when the rounded
  value reaches \<open>2^1024\<close>, that is when its binary exponent is 1024 or more.
\<close>

function bit_length :: "int \<Rightarrow> int" where
  "bit_length n = (if n \<le> 0 then 0 else 1 + bit_length (n div 2))"
  by pat_completeness auto
termination
  by (relation "measure nat") auto

declare bit_length.simps [simp del]

definition pow2 :: "int \<Rightarrow> rat" where
  "pow2 z = (if 0 \<le> z then 2 ^ nat z else 1 / 2 ^ nat (- z))"

text \<open>For \<open>x > 0\<close>, the integer \<open>e\<close> with \<open>2^e \<le> x < 2^(e+1)\<close>.\<close>

definition floor_log2 :: "rat \<Rightarrow> int" where
  "floor_log2 x =
     (let (p, q) = quotient_of x;
          d = bit_length p - bit_length q
      in if pow2 d \<le> x then d else d - 1)"

definition round_half_even :: "rat \<Rightarrow> int" where
  "round_half_even m =
     (let f = \<lfloor>m\<rfloor>; d = m - of_int f
      in if d < 1 / 2 then f
         else if 1 / 2 < d then f + 1
         else if even f then f else f + 1)"

datatype pyfloat = Fin rat | PosInf | NegInf

definition round_binary64 :: "rat \<Rightarrow> pyfloat" where
  "round_binary64 x =
     (if x = 0 then Fin 0
      else let a = \<bar>x\<bar>;
               e = floor_log2 a;
               q = max (e - 52) (- 1074);
               y = of_int (round_half_even (a / pow2 q)) * pow2 q
           in if y \<noteq> 0 \<and> 1024 \<le> floor_log2 y then (if 0 < x then PosInf else NegInf)
              else Fin (if 0 < x then y else - y))"

text \<open>\<open>a / b\<close> on two ints: correctly rounded, raising where CPython raises.\<close>

definition py_truediv :: "int \<Rightarrow> int \<Rightarrow> py_exception + pyfloat" where
  "py_truediv a b =
     (if b = 0 then Inl ZeroDivisionError
      else case round_binary64 (of_int a / of_int b) of
             Fin r \<Rightarrow> Inr (Fin r)
           | _ \<Rightarrow> Inl (OverflowError ''integer division result too large for a float''))"

text \<open>\<open>x * c\<close> and \<open>c + x\<close> for a float \<open>x\<close> and a small positive int constant \<open>c\<close>
  (65, 15 and 80 are binary64 values as they stand).\<close>

fun float_mul :: "pyfloat \<Rightarrow> rat \<Rightarrow> pyfloat" where
  "float_mul (Fin r) c = round_binary64 (r * c)"
| "float_mul PosInf c = PosInf"
| "float_mul NegInf c = NegInf"

fun float_add :: "rat \<Rightarrow> pyfloat \<Rightarrow> pyfloat" where
  "float_add c (Fin r) = round_binary64 (c + r)"
| "float_add c PosInf = PosInf"
| "float_add c NegInf = NegInf"

text \<open>
  \<open>min(x, k)\<close> with a float \<open>x\<close> and an int \<open>k\<close> returns \<open>k\<close> when \<open>k < x\<close> and
  \<open>x\<close> otherwise, so its value is an int or a float; \<open>int\<close> truncates a float
  towards zero and raises on an infinity.
\<close>

datatype pynum = PInt int | PFloat pyfloat

fun int_less_float :: "int \<Rightarrow> pyfloat \<Rightarrow> bool" where
  "int_less_float k (Fin r) = (of_int k < r)"
| "int_less_float k PosInf = True"
| "int_less_float k NegInf = False"

definition py_min :: "pyfloat \<Rightarrow> int \<Rightarrow> pynum" where
  "py_min x k = (if int_less_float k x then PInt k else PFloat x)"

definition trunc :: "rat \<Rightarrow> int" where
  "trunc r = (if 0 \<le> r then \<lfloor>r\<rfloor> else - \<lfloor>- r\<rfloor>)"

fun py_int :: "pynum \<Rightarrow> py_exception + int" where
  "py_int (PInt i) = Inr i"
| "py_int (PFloat (Fin r)) = Inr (trunc r)"
| "py_int (PFloat PosInf) = Inl (OverflowError ''cannot convert float infinity to integer'')"
| "py_int (PFloat NegInf) = Inl (OverflowError ''cannot convert float infinity to integer'')"

section \<open>Global state\<close>

record log_entry =
  timestamp :: string
  message :: string
  type :: string

record scraping_stats =
  articlesFound :: int
  articlesSaved :: int
  imagesFound :: int
  progress :: int
  completed :: bool
  sessionId :: "string option"

definition initial_scraping_stats :: scraping_stats where
  "initial_scraping_stats =
     \<lparr>articlesFound = 0, articlesSaved = 0, imagesFound = 0,
      progress = 0, completed = False, sessionId = None\<rparr>"

section \<open>Bounded log buffers\<close>

text \<open>
  \<open>now\<close> is \<open>datetime.now().strftime("%H:%M:%S")\<close> as read by the call. The line
  written to the process logger is no part of the state.
\<close>

definition add_log :: "string \<Rightarrow> string \<Rightarrow> string \<Rightarrow> log_entry list \<Rightarrow> log_entry list" where
  "add_log now msg log_type buffer =
     (let logs = buffer @ [\<lparr>timestamp = now, message = msg, type = log_type\<rparr>]
      in if 500 < length logs then tl logs else logs)"

definition add_conversion_log ::
    "string \<Rightarrow> string \<Rightarrow> string \<Rightarrow> log_entry list \<Rightarrow> log_entry list" where
  "add_conversion_log now msg log_type buffer =
     (let logs = buffer @ [\<lparr>timestamp = now, message = msg, type = log_type\<rparr>]
      in if 200 < length logs then tl logs else logs)"

definition add_summarization_log ::
    "string \<Rightarrow> string \<Rightarrow> string \<Rightarrow> log_entry list \<Rightarrow> log_entry list" where
  "add_summarization_log now msg log_type buffer =
     (let logs = buffer @ [\<lparr>timestamp = now, message = msg, type = log_type\<rparr>]
      in if 300 < length logs then tl logs else logs)"

section \<open>Log classifier and statistics of the scrape job\<close>

definition classify_log_line :: "string \<Rightarrow> string" where
  "classify_log_line line =
     (let line_lower = lower line
      in if list_ex (\<lambda>w. substring_in w line_lower) [''error'', ''failed'', ''exception'']
         then ''error''
         else if list_ex (\<lambda>w. substring_in w line_lower) [''success'', ''saved'', ''complete'']
         then ''success''
         else if list_ex (\<lambda>w. substring_in w line_lower) [''warning'', ''filtered'']
         then ''warning''
         else ''info'')"

text \<open>The two progress expressions of \<open>_update_stats_from_log\<close>:
  \<open>int(min(15 + (found / max_articles) * 65, 80))\<close> and
  \<open>int(min(80 + (found / max_articles) * 15, 95))\<close>.\<close>

definition article_progress :: "int \<Rightarrow> int \<Rightarrow> py_exception + int" where
  "article_progress found max_articles =
     (case py_truediv found max_articles of
        Inl e \<Rightarrow> Inl e
      | Inr ratio \<Rightarrow> py_int (py_min (float_add 15 (float_mul ratio 65)) 80))"

definition image_progress :: "int \<Rightarrow> int \<Rightarrow> py_exception + int" where
  "image_progress found max_articles =
     (case py_truediv found max_articles of
        Inl e \<Rightarrow> Inl e
      | Inr ratio \<Rightarrow> py_int (py_min (float_add 80 (float_mul ratio 15)) 95))"

text \<open>
  \<open>_update_stats_from_log\<close> mutates the global record as it goes, so an exception
  leaves the fields written before it: the result is the exception raised, if any,
  and the record as it then stands.
\<close>

definition update_stats_from_log ::
    "int \<Rightarrow> string \<Rightarrow> scraping_stats \<Rightarrow> py_exception option \<times> scraping_stats" where
  "update_stats_from_log max_articles line st =
     (let r1 =
        (if substring_in ''SAVED:'' line \<and> substring_in ''article.json'' line then
           let sa = st\<lparr>articlesFound := articlesFound st + 1\<rparr>;
               sb = sa\<lparr>articlesSaved := articlesFound sa\<rparr>
           in case article_progress (articlesFound sb) max_articles of
                Inl e \<Rightarrow> (Some e, sb)
              | Inr p \<Rightarrow> (None, sb\<lparr>progress := max (progress sb) p\<rparr>)
         else (None, st))
      in case r1 of
           (Some e, s1) \<Rightarrow> (Some e, s1)
         | (None, s1) \<Rightarrow>
             (let r2 =
                (if substring_in ''SUCCESS: Saved'' line \<and> substring_in ''image.jpg'' line then
                   let sc = s1\<lparr>imagesFound := imagesFound s1 + 1\<rparr>
                   in case image_progress (imagesFound sc) max_articles of
                        Inl e \<Rightarrow> (Some e, sc)
                      | Inr p \<Rightarrow> (None, sc\<lparr>progress := max (progress sc) p\<rparr>)
                 else (None, s1))
              in case r2 of
                   (Some e, s2) \<Rightarrow> (Some e, s2)
                 | (None, s2) \<Rightarrow>
                     (None, if substring_in ''COMPLETE'' (upper line)
                            then s2\<lparr>progress := 100\<rparr> else s2)))"


section \<open>The server\<close>

subsection \<open>State\<close>

text \<open>
  \<open>LocalScrapingJob\<close>: \<open>process\<close> and \<open>process_thread\<close> tell whether the
  subprocess and the thread have been created (\<open>None\<close> before).
\<close>

record job =
  url :: string
  max_articles :: int
  start_time :: rat
  process :: bool
  process_thread :: bool
  is_running :: bool
  session_id :: string

record conversion_stats =
  conv_completed :: bool
  conv_error :: "string option"
  conv_targetBucket :: "string option"
  conv_filesConverted :: "int option"

record summarization_stats =
  sum_completed :: bool
  sum_error :: "string option"
  sum_targetBucket :: "string option"
  textSummaries :: int
  imageSummaries :: int
  totalFolders :: int

definition S3_TEXT_BUCKET_NAME :: string where
  "S3_TEXT_BUCKET_NAME = ''bockscraper1''"

definition S3_SUMMARY_BUCKET_NAME :: string where
  "S3_SUMMARY_BUCKET_NAME = ''bockscraper2''"

definition initial_conversion_stats :: conversion_stats where
  "initial_conversion_stats =
     \<lparr>conv_completed = False, conv_error = None, conv_targetBucket = None,
      conv_filesConverted = None\<rparr>"

definition reset_conversion_stats :: conversion_stats where
  "reset_conversion_stats =
     \<lparr>conv_completed = False, conv_error = None,
      conv_targetBucket = Some S3_TEXT_BUCKET_NAME, conv_filesConverted = Some 0\<rparr>"

definition initial_summarization_stats :: summarization_stats where
  "initial_summarization_stats =
     \<lparr>sum_completed = False, sum_error = None,
      sum_targetBucket = Some S3_SUMMARY_BUCKET_NAME,
      textSummaries = 0, imageSummaries = 0, totalFolders = 0\<rparr>"

text \<open>
  The module's globals. \<open>clock_reads\<close> counts the readings of the wall clock taken
  by the log functions, so that the \<open>n\<close>-th log entry carries the \<open>n\<close>-th reading
  of the clock \<open>nat \<Rightarrow> string\<close> that the operations take as a parameter.
\<close>

record server =
  scraping_active :: bool
  current_job :: "job option"
  all_logs :: "log_entry list"
  scraping_stats :: scraping_stats
  conversion_active :: bool
  conversion_logs :: "log_entry list"
  conversion_stats :: conversion_stats
  summarization_active :: bool
  summarization_logs :: "log_entry list"
  summarization_stats :: summarization_stats
  clock_reads :: nat

definition initial_server :: server where
  "initial_server =
     \<lparr>scraping_active = False, current_job = None, all_logs = [],
      scraping_stats = initial_scraping_stats,
      conversion_active = False, conversion_logs = [],
      conversion_stats = initial_conversion_stats,
      summarization_active = False, summarization_logs = [],
      summarization_stats = initial_summarization_stats,
      clock_reads = 0\<rparr>"

definition sv_add_log :: "(nat \<Rightarrow> string) \<Rightarrow> string \<Rightarrow> string \<Rightarrow> server \<Rightarrow> server" where
  "sv_add_log clock msg log_type sv =
     sv\<lparr>all_logs := add_log (clock (clock_reads sv)) msg log_type (all_logs sv),
        clock_reads := Suc (clock_reads sv)\<rparr>"



subsection \<open>Requests and responses\<close>

text \<open>
  A request body is the JSON object read by \<open>request.json\<close>, at the types the
  endpoints expect: a field is \<open>None\<close> when the key is missing. A response is the
  HTTP status and the object given to \<open>jsonify\<close>.
\<close>

datatype json =
    JNull
  | JBool bool
  | JInt int
  | JStr string
  | JList "json list"
  | JObj "(string \<times> json) list"

record response =
  status :: nat
  body :: json

record start_request =
  req_url :: "string option"
  req_maxArticles :: "int option"

record session_request =
  req_sourceSession :: "string option"

record list_request =
  req_bucket :: "string option"
  req_prefix :: "string option"

definition error_response :: "nat \<Rightarrow> string \<Rightarrow> response" where
  "error_response code msg = \<lparr>status = code, body = JObj [(''error'', JStr msg)]\<rparr>"

subsection \<open>The scrape job\<close>

text \<open>\<open>t0\<close> and \<open>t1\<close> are the two readings of \<open>time.time()\<close> in \<open>__init__\<close>.\<close>

definition LocalScrapingJob :: "string \<Rightarrow> int \<Rightarrow> rat \<Rightarrow> rat \<Rightarrow> job" where
  "LocalScrapingJob u n t0 t1 =
     \<lparr>url = u, max_articles = n, start_time = t0, process = False,
      process_thread = False, is_running = False,
      session_id = ''session_'' @ str_int (trunc t1)\<rparr>"

text \<open>\<open>start\<close> creates the thread that runs \<open>run_scraping\<close>; \<open>stop\<close> clears the
  flag and terminates the subprocess, which is outside the state.\<close>

definition start :: "job \<Rightarrow> job" where
  "start j = j\<lparr>is_running := True, process_thread := True\<rparr>"

definition stop :: "job \<Rightarrow> job" where
  "stop j = j\<lparr>is_running := False\<rparr>"

definition start_scraping ::
    "rat \<Rightarrow> rat \<Rightarrow> start_request \<Rightarrow> server \<Rightarrow> response \<times> server" where
  "start_scraping t0 t1 data sv =
     (if scraping_active sv then (error_response 400 ''Scraping already in progress'', sv)
      else
        let n = (case req_maxArticles data of None \<Rightarrow> 10 | Some k \<Rightarrow> k)
        in case req_url data of
             None \<Rightarrow> (error_response 400 ''URL is required'', sv)
           | Some u \<Rightarrow>
               if u = [] then (error_response 400 ''URL is required'', sv)
               else
                 let j = start (LocalScrapingJob u n t0 t1)
                 in (\<lparr>status = 200,
                      body = JObj [(''status'', JStr ''started''),
                                   (''sessionId'', JStr (session_id j)),
                                   (''message'', JStr ''Scraping job started'')]\<rparr>,
                     sv\<lparr>scraping_stats := initial_scraping_stats,
                        all_logs := [],
                        scraping_active := True,
                        current_job := Some j\<rparr>))"

definition stop_scraping :: "server \<Rightarrow> response \<times> server" where
  "stop_scraping sv =
     (\<lparr>status = 200, body = JObj [(''status'', JStr ''stopped'')]\<rparr>,
      sv\<lparr>current_job := map_option stop (current_job sv),
         scraping_active := False\<rparr>)"

definition convert_to_text :: "session_request \<Rightarrow> server \<Rightarrow> response \<times> server" where
  "convert_to_text data sv =
     (if conversion_active sv then (error_response 400 ''Conversion already in progress'', sv)
      else
        let source_session = (case req_sourceSession data of None \<Rightarrow> [] | Some x \<Rightarrow> x)
        in if source_session = [] then (error_response 400 ''sourceSession is required'', sv)
           else (\<lparr>status = 200,
                   body = JObj [(''status'', JStr ''started''),
                                (''message'', JStr ''Conversion started''),
                                (''targetBucket'', JStr S3_TEXT_BUCKET_NAME)]\<rparr>,
                 sv\<lparr>conversion_logs := [],
                    conversion_stats := reset_conversion_stats,
                    conversion_active := True\<rparr>))"

definition generate_summaries :: "session_request \<Rightarrow> server \<Rightarrow> response \<times> server" where
  "generate_summaries data sv =
     (if summarization_active sv
      then (error_response 400 ''Summarization already in progress'', sv)
      else
        let source_session = (case req_sourceSession data of None \<Rightarrow> [] | Some x \<Rightarrow> x)
        in if source_session = [] then (error_response 400 ''sourceSession is required'', sv)
           else (\<lparr>status = 200,
                   body = JObj [(''status'', JStr ''started''),
                                (''message'', JStr ''Summarization started''),
                                (''targetBucket'', JStr S3_SUMMARY_BUCKET_NAME)]\<rparr>,
                 sv\<lparr>summarization_logs := [],
                    summarization_stats := initial_summarization_stats,
                    summarization_active := True\<rparr>))"

subsection \<open>The scrape worker\<close>

text \<open>
  What the worker meets outside the state: the name of the bucket (read from the
  environment when the module is loaded), whether \<open>subprocess.Popen\<close> raises, what
  happens while the output is streamed, and the exit status of the subprocess.
  An event is a line returned by \<open>readline\<close>, an exception raised by
  \<open>readline\<close>, or a call of \<open>stop\<close> by the \<open>/stop_scraping\<close> handler, which runs
  in another thread; the list ends where \<open>readline\<close> returns the empty string.
\<close>

datatype event = Line string | ReadError py_exception | StopRequested

record scrape_env =
  S3_BUCKET_NAME :: string
  popen_raises :: "py_exception option"
  events :: "event list"
  returncode :: int

definition set_stats :: "(scraping_stats \<Rightarrow> scraping_stats) \<Rightarrow> server \<Rightarrow> server" where
  "set_stats f sv = sv\<lparr>scraping_stats := f (scraping_stats sv)\<rparr>"

text \<open>The first two statements of the \<open>try\<close> block.\<close>

definition run_start :: "(nat \<Rightarrow> string) \<Rightarrow> server \<Rightarrow> server" where
  "run_start clock sv =
     set_stats (\<lambda>st. st\<lparr>progress := 10\<rparr>)
       (sv_add_log clock ''Starting local scraper...'' ''info'' sv)"

text \<open>The announcement of the job and of its session.\<close>

definition run_announce :: "(nat \<Rightarrow> string) \<Rightarrow> job \<Rightarrow> server \<Rightarrow> server" where
  "run_announce clock self sv =
     (let s1 = sv_add_log clock
                 (''Scraping '' @ str_int (max_articles self) @ '' articles from '' @ url self)
                 ''info'' sv;
          s2 = sv_add_log clock (''Session ID: '' @ session_id self) ''info'' s1
      in set_stats (\<lambda>st. st\<lparr>progress := 15, sessionId := Some (session_id self)\<rparr>) s2)"

text \<open>
  The loop over the output. The result is the exception that left the loop, if any,
  with the job and the state as they then stand.
\<close>

fun stream_output ::
    "(nat \<Rightarrow> string) \<Rightarrow> job \<Rightarrow> event list \<Rightarrow> server
       \<Rightarrow> py_exception option \<times> job \<times> server" where
  "stream_output clock self [] sv = (None, self, sv)"
| "stream_output clock self (StopRequested # evs) sv =
     stream_output clock (stop self) evs sv"
| "stream_output clock self (ReadError e # evs) sv = (Some e, self, sv)"
| "stream_output clock self (Line raw # evs) sv =
     (if raw = [] then (None, self, sv)
      else if \<not> is_running self then (None, self, sv)
      else
        let line = strip raw
        in if line = [] then stream_output clock self evs sv
           else
             let log_type = classify_log_line line;
                 s1 = sv_add_log clock line log_type sv
             in case update_stats_from_log (max_articles self) line (scraping_stats s1) of
                  (Some e, st) \<Rightarrow> (Some e, self, s1\<lparr>scraping_stats := st\<rparr>)
                | (None, st) \<Rightarrow>
                    stream_output clock self evs (s1\<lparr>scraping_stats := st\<rparr>))"

text \<open>The branch on the exit status, after \<open>self.process.wait()\<close>.\<close>

definition run_finish :: "(nat \<Rightarrow> string) \<Rightarrow> scrape_env \<Rightarrow> job \<Rightarrow> server \<Rightarrow> server" where
  "run_finish clock env self sv =
     (if returncode env = 0 \<and> is_running self then
        let s1 = sv_add_log clock ''Scraping completed successfully!'' ''success'' sv;
            s2 = sv_add_log clock
                   (''Files uploaded to S3: '' @ S3_BUCKET_NAME env @ ''/'' @ session_id self)
                   ''success'' s1
        in set_stats (\<lambda>st. st\<lparr>progress := 100, completed := True\<rparr>) s2
      else
        set_stats (\<lambda>st. st\<lparr>progress := 0\<rparr>)
          (sv_add_log clock ''Scraping failed or was stopped'' ''error'' sv))"

text \<open>The \<open>try\<close> block of \<open>_run_scraping\<close>.\<close>

definition scraping_body ::
    "(nat \<Rightarrow> string) \<Rightarrow> scrape_env \<Rightarrow> job \<Rightarrow> server
       \<Rightarrow> py_exception option \<times> job \<times> server" where
  "scraping_body clock env self sv =
     (let s1 = run_start clock sv;
          s2 = run_announce clock self s1
      in case popen_raises env of
           Some e \<Rightarrow> (Some e, self, s2)
         | None \<Rightarrow>
             (case stream_output clock (self\<lparr>process := True\<rparr>) (events env) s2 of
                (Some e, self', s3) \<Rightarrow> (Some e, self', s3)
              | (None, self', s3) \<Rightarrow> (None, self', run_finish clock env self' s3)))"

text \<open>The \<open>except\<close> clause.\<close>

definition scraping_failed :: "(nat \<Rightarrow> string) \<Rightarrow> py_exception \<Rightarrow> server \<Rightarrow> server" where
  "scraping_failed clock e sv =
     set_stats (\<lambda>st. st\<lparr>progress := 0\<rparr>)
       (sv_add_log clock (''Error: '' @ str_exc e) ''error'' sv)"

definition run_scraping ::
    "(nat \<Rightarrow> string) \<Rightarrow> scrape_env \<Rightarrow> job \<Rightarrow> server \<Rightarrow> job \<times> server" where
  "run_scraping clock env self sv =
     (case scraping_body clock env self sv of
        (exc, self', s1) \<Rightarrow>
          let s2 = (case exc of None \<Rightarrow> s1 | Some e \<Rightarrow> scraping_failed clock e s1)
          in (self'\<lparr>is_running := False\<rparr>, s2\<lparr>scraping_active := False\<rparr>))"

subsection \<open>Listing a bucket\<close>

text \<open>
  The answer of \<open>list_objects_v2\<close>: the \<open>Prefix\<close> of each entry of
  \<open>CommonPrefixes\<close> and the entries of \<open>Contents\<close> (both empty when the key is
  missing). \<open>'d\<close> is the type of \<open>LastModified\<close>, which the handler only passes to
  \<open>isoformat\<close>. The parameter \<open>list_objects_v2\<close> is the call on a new client, with
  the exception it raises, if any.
\<close>

record 'd s3_object =
  Key :: string
  Size :: int
  LastModified :: 'd

record 'd listing =
  CommonPrefixes :: "string list"
  Contents :: "'d s3_object list"

definition normalise_prefix :: "string \<Rightarrow> string" where
  "normalise_prefix p = (if p \<noteq> [] \<and> \<not> suffix ''/'' p then p @ ''/'' else p)"

definition folder_entry :: "string \<Rightarrow> string \<Rightarrow> json" where
  "folder_entry p cp = JObj [(''name'', JStr (rstrip_slash (slice_from (py_len p) cp)))]"

definition file_entry :: "('d \<Rightarrow> string) \<Rightarrow> string \<Rightarrow> 'd s3_object \<Rightarrow> json" where
  "file_entry isoformat p obj =
     JObj [(''name'', JStr (slice_from (py_len p) (Key obj))),
           (''key'', JStr (Key obj)),
           (''size'', JInt (Size obj)),
           (''lastModified'', JStr (isoformat (LastModified obj)))]"

definition list_bucket ::
    "('d \<Rightarrow> string) \<Rightarrow> (string option \<Rightarrow> string \<Rightarrow> py_exception + 'd listing)
       \<Rightarrow> list_request \<Rightarrow> response" where
  "list_bucket isoformat list_objects_v2 data =
     (let bucket = req_bucket data;
          p = normalise_prefix (case req_prefix data of None \<Rightarrow> [] | Some x \<Rightarrow> x)
      in case list_objects_v2 bucket p of
           Inl e \<Rightarrow> error_response 500 (str_exc e)
         | Inr r \<Rightarrow>
             \<lparr>status = 200,
              body = JObj
                [(''folders'', JList (map (folder_entry p) (CommonPrefixes r))),
                 (''files'',
                  JList (map (file_entry isoformat p)
                    (filter (\<lambda>obj. Key obj \<noteq> p
                                \<and> CHR ''/'' \<notin> set (slice_from (py_len p) (Key obj)))
                       (Contents r))))]\<rparr>)"

subsection \<open>The conversion and summarization workers\<close>




















section \<open>Notions used to state the properties\<close>

text \<open>
  Two characters are the same letter when they are equal or one is an upper-case
  ASCII letter and the other is its lower-case form; two lines are case variants
  when they have the same letters, position by position; a line mentions a keyword
  when one of its segments is a case variant of the keyword.
\<close>

definition same_letter :: "char \<Rightarrow> char \<Rightarrow> bool" where
  "same_letter c d =
     (c = d \<or> (is_upper c \<and> (of_char d :: nat) = of_char c + 32)
            \<or> (is_upper d \<and> (of_char c :: nat) = of_char d + 32))"

definition case_variant :: "string \<Rightarrow> string \<Rightarrow> bool" where
  "case_variant a b = list_all2 same_letter a b"

definition mentions :: "string \<Rightarrow> string \<Rightarrow> bool" where
  "mentions line kw =
     (\<exists>pre mid post. line = pre @ mid @ post \<and> case_variant mid kw)"


section \<open>Strings: auxiliary facts\<close>

lemma substring_in_sublist: "substring_in w s \<longleftrightarrow> sublist w s"
  by (induction s) (auto simp: sublist_Cons_right)

lemma of_char_lower_upper:
  "is_upper c \<Longrightarrow> (of_char (char_of ((of_char c :: nat) + 32)) :: nat) = of_char c + 32"
  by (simp add: is_upper_def)

lemma upper_shift:
  assumes "is_upper c" and "(of_char d :: nat) = of_char c + 32"
  shows "lower_char c = d" and "lower_char d = d"
proof -
  have "char_of ((of_char c :: nat) + 32) = char_of (of_char d :: nat)"
    using assms(2) by simp
  then show "lower_char c = d"
    using assms(1) by (simp add: lower_char_def)
  have "\<not> is_upper d"
    using assms by (simp add: is_upper_def)
  then show "lower_char d = d"
    by (simp add: lower_char_def)
qed

lemma same_letter_lower: "same_letter c d \<Longrightarrow> lower_char c = lower_char d"
  unfolding same_letter_def using upper_shift by metis

lemma same_letter_lower_self: "same_letter c (lower_char c)"
proof (cases "is_upper c")
  case True
  then show ?thesis
    using of_char_lower_upper [of c] by (simp add: same_letter_def lower_char_def)
next
  case False
  then show ?thesis
    by (simp add: same_letter_def lower_char_def)
qed

lemma case_variant_lower: "case_variant a b \<Longrightarrow> lower a = lower b"
  unfolding case_variant_def lower_def
  by (induction a b rule: list_all2_induct) (auto dest: same_letter_lower)

lemma case_variant_lower_self: "case_variant a (lower a)"
  unfolding case_variant_def lower_def
  by (induction a) (auto simp: same_letter_lower_self)

lemma substring_lower_mentions:
  assumes "lower kw = kw"
  shows "substring_in kw (lower line) \<longleftrightarrow> mentions line kw"
proof
  assume "substring_in kw (lower line)"
  then obtain ps ss where "map lower_char line = ps @ kw @ ss"
    by (auto simp: substring_in_sublist sublist_def lower_def)
  then obtain pre rest where l1: "line = pre @ rest" and r: "map lower_char rest = kw @ ss"
    by (metis map_eq_append_conv)
  from r obtain mid post where l2: "rest = mid @ post" and m: "map lower_char mid = kw"
    by (metis map_eq_append_conv)
  have "case_variant mid kw"
    using case_variant_lower_self [of mid] m by (simp add: lower_def)
  with l1 l2 show "mentions line kw"
    unfolding mentions_def by blast
next
  assume "mentions line kw"
  then obtain pre mid post where l: "line = pre @ mid @ post" and cv: "case_variant mid kw"
    unfolding mentions_def by blast
  from cv have "lower mid = kw"
    using case_variant_lower assms by fastforce
  with l have "lower line = lower pre @ kw @ lower post"
    by (simp add: lower_def)
  then show "substring_in kw (lower line)"
    by (auto simp: substring_in_sublist sublist_def)
qed

lemma lower_keywords:
  "lower ''error'' = ''error''" "lower ''failed'' = ''failed''"
  "lower ''exception'' = ''exception''" "lower ''success'' = ''success''"
  "lower ''saved'' = ''saved''" "lower ''complete'' = ''complete''"
  "lower ''warning'' = ''warning''" "lower ''filtered'' = ''filtered''"
  by (simp_all add: lower_def lower_char_def is_upper_def)

section \<open>The log classifier\<close>

text \<open>
  Claim C3. For every log line the classifier returns one of the four tags
  \<open>error\<close>, \<open>success\<close>, \<open>warning\<close> and \<open>info\<close>, decided in this order:
  \<open>error\<close> if the line mentions \<open>error\<close>, \<open>failed\<close> or \<open>exception\<close>; otherwise
  \<open>success\<close> if it mentions \<open>success\<close>, \<open>saved\<close> or \<open>complete\<close>; otherwise
  \<open>warning\<close> if it mentions \<open>warning\<close> or \<open>filtered\<close>; otherwise \<open>info\<close>. A
  keyword is mentioned when it occurs as a substring, letter case aside.
\<close>

theorem classify_log_line_priority:
  "classify_log_line line =
     (if mentions line ''error'' \<or> mentions line ''failed'' \<or> mentions line ''exception''
      then ''error''
      else if mentions line ''success'' \<or> mentions line ''saved'' \<or> mentions line ''complete''
      then ''success''
      else if mentions line ''warning'' \<or> mentions line ''filtered''
      then ''warning''
      else ''info'')
   \<and> classify_log_line line \<in> {''error'', ''success'', ''warning'', ''info''}"
  unfolding classify_log_line_def Let_def
  by (simp add: substring_lower_mentions lower_keywords del: substring_in.simps)

theorem classify_log_line_priority_witness:
  "mentions ''Upload FAILED, file saved'' ''failed''
   \<and> classify_log_line ''Upload FAILED, file saved'' = ''error''"
proof -
  have m: "mentions ''Upload FAILED, file saved'' ''failed''"
    unfolding mentions_def
  proof (intro exI conjI)
    show "''Upload FAILED, file saved'' = ''Upload '' @ ''FAILED'' @ '', file saved''"
      by simp
    show "case_variant ''FAILED'' ''failed''"
      by code_simp
  qed
  then show ?thesis
    using classify_log_line_priority [of "''Upload FAILED, file saved''"] by simp
qed

text \<open>
  Claim C10. Classification does not depend on letter case: two lines that differ
  only in the case of their letters get the same tag.
\<close>

theorem classify_case_insensitive:
  "case_variant a b \<Longrightarrow> classify_log_line a = classify_log_line b"
  unfolding classify_log_line_def by (simp add: case_variant_lower del: substring_in.simps)

theorem classify_case_insensitive_witness:
  "case_variant ''Error: Disk'' ''eRROR: disK''
   \<and> classify_log_line ''Error: Disk'' = classify_log_line ''eRROR: disK''
   \<and> classify_log_line ''eRROR: disK'' = ''error''"
proof -
  have cv: "case_variant ''Error: Disk'' ''eRROR: disK''"
    by code_simp
  have "classify_log_line ''eRROR: disK'' = ''error''"
    by code_simp
  with cv classify_case_insensitive [OF cv] show ?thesis by simp
qed

section \<open>The log buffers\<close>

text \<open>
  Claim C5. A log buffer that holds at most its bound of entries before an append
  holds at most its bound after it, and the append drops the oldest entry, and
  only that one, exactly when the buffer is full. The bounds are 500 for the
  scrape log, 200 for the conversion log and 300 for the summarization log.
\<close>

theorem log_buffers_bounded:
  "(length logs \<le> 500 \<longrightarrow>
      length (add_log now msg ty logs) \<le> 500
      \<and> add_log now msg ty logs =
          (if length logs = 500 then tl logs else logs)
            @ [\<lparr>timestamp = now, message = msg, type = ty\<rparr>])
   \<and> (length clogs \<le> 200 \<longrightarrow>
      length (add_conversion_log now msg ty clogs) \<le> 200
      \<and> add_conversion_log now msg ty clogs =
          (if length clogs = 200 then tl clogs else clogs)
            @ [\<lparr>timestamp = now, message = msg, type = ty\<rparr>])
   \<and> (length slogs \<le> 300 \<longrightarrow>
      length (add_summarization_log now msg ty slogs) \<le> 300
      \<and> add_summarization_log now msg ty slogs =
          (if length slogs = 300 then tl slogs else slogs)
            @ [\<lparr>timestamp = now, message = msg, type = ty\<rparr>])"
  unfolding add_log_def add_conversion_log_def add_summarization_log_def Let_def
  by (cases logs; cases clogs; cases slogs) auto

theorem log_buffers_bounded_witness:
  "length (add_log ''12:00:01'' ''new'' ''info''
      (replicate 500 \<lparr>timestamp = ''12:00:00'', message = ''old'', type = ''info''\<rparr>)) \<le> 500
   \<and> length (add_conversion_log ''12:00:01'' ''new'' ''info''
      (replicate 200 \<lparr>timestamp = ''12:00:00'', message = ''old'', type = ''info''\<rparr>)) \<le> 200
   \<and> length (add_summarization_log ''12:00:01'' ''new'' ''info''
      (replicate 300 \<lparr>timestamp = ''12:00:00'', message = ''old'', type = ''info''\<rparr>)) \<le> 300"
  using log_buffers_bounded
    [of "replicate 500 \<lparr>timestamp = ''12:00:00'', message = ''old'', type = ''info''\<rparr>"
        "''12:00:01''" "''new''" "''info''"
        "replicate 200 \<lparr>timestamp = ''12:00:00'', message = ''old'', type = ''info''\<rparr>"
        "replicate 300 \<lparr>timestamp = ''12:00:00'', message = ''old'', type = ''info''\<rparr>"]
  by simp

section \<open>The scrape statistics\<close>

lemma sv_add_log_stats [simp]: "scraping_stats (sv_add_log c m t sv) = scraping_stats sv"
  by (simp add: sv_add_log_def)

lemma stream_output_preserves:
  assumes step: "\<And>st n line. P st \<Longrightarrow> P (snd (update_stats_from_log n line st))"
  shows "P (scraping_stats sv) \<Longrightarrow>
         P (scraping_stats (snd (snd (stream_output c j evs sv))))"
proof (induction c j evs sv rule: stream_output.induct)
  case (1 clock self sv)
  then show ?case by simp
next
  case (2 clock self evs sv)
  then show ?case by simp
next
  case (3 clock self e evs sv)
  then show ?case by simp
next
  case (4 clock self raw evs sv)
  let ?s1 = "sv_add_log clock (strip raw) (classify_log_line (strip raw)) sv"
  let ?u = "update_stats_from_log (max_articles self) (strip raw) (scraping_stats ?s1)"
  have P1: "P (snd ?u)"
    using step [of "scraping_stats ?s1"] "4.prems" by simp
  show ?case
    using "4.prems" "4.IH" P1
    by (auto simp: Let_def split: prod.splits option.splits)
qed

lemma trunc_le: "r \<le> of_int k \<Longrightarrow> trunc r \<le> k"
  unfolding trunc_def by (auto simp: floor_le_iff ceiling_le_iff ceiling_def[symmetric]) 

lemma py_int_min_le: "py_int (py_min x k) = Inr p \<Longrightarrow> p \<le> k"
  by (cases x) (auto simp: py_min_def trunc_le split: if_splits)

lemma article_progress_le: "article_progress a n = Inr p \<Longrightarrow> p \<le> 80"
  unfolding article_progress_def
  by (auto split: sum.splits dest: py_int_min_le)

lemma image_progress_le: "image_progress a n = Inr p \<Longrightarrow> p \<le> 95"
  unfolding image_progress_def
  by (auto split: sum.splits dest: py_int_min_le)

lemma update_stats_saved_found:
  "articlesSaved st = articlesFound st \<Longrightarrow>
   articlesSaved (snd (update_stats_from_log n line st))
     = articlesFound (snd (update_stats_from_log n line st))"
  unfolding update_stats_from_log_def Let_def
  by (auto split: sum.splits option.splits prod.splits)

lemma update_stats_progress_mono:
  "progress st \<le> 100 \<Longrightarrow> progress st \<le> progress (snd (update_stats_from_log n line st))"
  unfolding update_stats_from_log_def Let_def
  by (auto split: sum.splits option.splits prod.splits)

lemma update_stats_progress_le:
  "progress st \<le> 100 \<Longrightarrow> progress (snd (update_stats_from_log n line st)) \<le> 100"
  unfolding update_stats_from_log_def Let_def
  by (auto split: sum.splits option.splits prod.splits
           dest: article_progress_le image_progress_le)

lemma update_stats_between:
  "lo \<le> progress st \<and> progress st \<le> 100 \<Longrightarrow>
   lo \<le> progress (snd (update_stats_from_log n line st))
   \<and> progress (snd (update_stats_from_log n line st)) \<le> 100"
  using update_stats_progress_mono [of st n line] update_stats_progress_le [of st n line]
  by linarith

lemma stream_output_between:
  "lo \<le> progress (scraping_stats sv) \<and> progress (scraping_stats sv) \<le> 100 \<Longrightarrow>
   lo \<le> progress (scraping_stats (snd (snd (stream_output c j evs sv))))
   \<and> progress (scraping_stats (snd (snd (stream_output c j evs sv)))) \<le> 100"
  by (rule stream_output_preserves [where P = "\<lambda>st. lo \<le> progress st \<and> progress st \<le> 100"])
     (rule update_stats_between)

lemma stream_output_saved_found:
  "articlesSaved (scraping_stats sv) = articlesFound (scraping_stats sv) \<Longrightarrow>
   articlesSaved (scraping_stats (snd (snd (stream_output c j evs sv))))
     = articlesFound (scraping_stats (snd (snd (stream_output c j evs sv))))"
  by (rule stream_output_preserves [where P = "\<lambda>st. articlesSaved st = articlesFound st"])
     (rule update_stats_saved_found)

lemma scraping_stats_set_stats [simp]:
  "scraping_stats (set_stats f sv) = f (scraping_stats sv)"
  by (simp add: set_stats_def)

lemma run_start_stats:
  "scraping_stats (run_start c sv) = (scraping_stats sv)\<lparr>progress := 10\<rparr>"
  by (simp add: run_start_def)

lemma run_announce_stats:
  "scraping_stats (run_announce c j sv)
     = (scraping_stats sv)\<lparr>progress := 15, sessionId := Some (session_id j)\<rparr>"
  by (simp add: run_announce_def Let_def)

lemma run_finish_stats:
  "scraping_stats (run_finish c env j sv) =
     (if returncode env = 0 \<and> is_running j
      then (scraping_stats sv)\<lparr>progress := 100, completed := True\<rparr>
      else (scraping_stats sv)\<lparr>progress := 0\<rparr>)"
  by (simp add: run_finish_def Let_def)

lemma scraping_failed_stats:
  "scraping_stats (scraping_failed c e sv) = (scraping_stats sv)\<lparr>progress := 0\<rparr>"
  by (simp add: scraping_failed_def)

lemma run_scraping_saved_found:
  assumes "articlesSaved (scraping_stats sv) = articlesFound (scraping_stats sv)"
  shows "articlesSaved (scraping_stats (snd (run_scraping c env j sv)))
           = articlesFound (scraping_stats (snd (run_scraping c env j sv)))"
proof -
  let ?s2 = "run_announce c j (run_start c sv)"
  have a: "articlesSaved (scraping_stats ?s2) = articlesFound (scraping_stats ?s2)"
    using assms by (simp add: run_announce_stats run_start_stats)
  show ?thesis
  proof (cases "popen_raises env")
    case (Some e)
    then show ?thesis
      using a by (simp add: run_scraping_def scraping_body_def Let_def scraping_failed_stats)
  next
    case None
    obtain exc j' s3 where so:
      "stream_output c (j\<lparr>process := True\<rparr>) (events env) ?s2 = (exc, j', s3)"
      by (cases "stream_output c (j\<lparr>process := True\<rparr>) (events env) ?s2")
    have "articlesSaved (scraping_stats s3) = articlesFound (scraping_stats s3)"
      using stream_output_saved_found [OF a, of c "j\<lparr>process := True\<rparr>" "events env"] so
      by simp
    then show ?thesis
      using None so
      by (cases exc)
         (simp_all add: run_scraping_def scraping_body_def Let_def scraping_failed_stats
            run_finish_stats)
  qed
qed

text \<open>
  Claim C9. The scrape statistics keep \<open>articlesSaved = articlesFound\<close>: the two
  counters are equal in the initial record, both are 0 after the reset performed
  by a \<open>/start_scraping\<close> request that starts a job, and every per-line update of the
  worker, and so every run of the worker, keeps them equal.
\<close>

theorem articles_saved_equals_found:
  "articlesSaved initial_scraping_stats = articlesFound initial_scraping_stats
   \<and> (status (fst (start_scraping t0 t1 data sv)) = 200 \<longrightarrow>
        articlesFound (scraping_stats (snd (start_scraping t0 t1 data sv))) = 0
        \<and> articlesSaved (scraping_stats (snd (start_scraping t0 t1 data sv))) = 0)
   \<and> (articlesSaved st = articlesFound st \<longrightarrow>
        articlesSaved (snd (update_stats_from_log n line st))
          = articlesFound (snd (update_stats_from_log n line st)))
   \<and> (articlesSaved (scraping_stats sv) = articlesFound (scraping_stats sv) \<longrightarrow>
        articlesSaved (scraping_stats (snd (run_scraping c env j sv)))
          = articlesFound (scraping_stats (snd (run_scraping c env j sv))))"
proof (intro conjI impI)
  show "articlesSaved initial_scraping_stats = articlesFound initial_scraping_stats"
    by (simp add: initial_scraping_stats_def)
next
  assume "status (fst (start_scraping t0 t1 data sv)) = 200"
  then have "scraping_stats (snd (start_scraping t0 t1 data sv)) = initial_scraping_stats"
    by (auto simp: start_scraping_def error_response_def Let_def
             split: if_splits option.splits)
  then show "articlesFound (scraping_stats (snd (start_scraping t0 t1 data sv))) = 0"
    and "articlesSaved (scraping_stats (snd (start_scraping t0 t1 data sv))) = 0"
    by (simp_all add: initial_scraping_stats_def)
next
  assume "articlesSaved st = articlesFound st"
  then show "articlesSaved (snd (update_stats_from_log n line st))
               = articlesFound (snd (update_stats_from_log n line st))"
    by (rule update_stats_saved_found)
next
  assume "articlesSaved (scraping_stats sv) = articlesFound (scraping_stats sv)"
  then show "articlesSaved (scraping_stats (snd (run_scraping c env j sv)))
               = articlesFound (scraping_stats (snd (run_scraping c env j sv)))"
    by (rule run_scraping_saved_found)
qed

theorem articles_saved_equals_found_witness:
  "status (fst (start_scraping 0 0 \<lparr>req_url = Some ''http://example.com'', req_maxArticles = None\<rparr>
       initial_server)) = 200
   \<and> articlesSaved (scraping_stats (snd (start_scraping 0 0
         \<lparr>req_url = Some ''http://example.com'', req_maxArticles = None\<rparr> initial_server))) = 0
   \<and> articlesSaved initial_scraping_stats = articlesFound initial_scraping_stats
   \<and> articlesSaved (snd (update_stats_from_log 10 ''SAVED: 1_article.json''
         initial_scraping_stats))
       = articlesFound (snd (update_stats_from_log 10 ''SAVED: 1_article.json''
           initial_scraping_stats))
   \<and> articlesFound (snd (update_stats_from_log 10 ''SAVED: 1_article.json''
         initial_scraping_stats)) = 1"
proof -
  have h1: "status (fst (start_scraping 0 0
      \<lparr>req_url = Some ''http://example.com'', req_maxArticles = None\<rparr> initial_server)) = 200"
    by code_simp
  have h2: "articlesSaved initial_scraping_stats = articlesFound initial_scraping_stats"
    by code_simp
  have h3: "articlesFound (snd (update_stats_from_log 10 ''SAVED: 1_article.json''
      initial_scraping_stats)) = 1"
    by code_simp
  show ?thesis
    using h1 h2 h3
      articles_saved_equals_found
        [where ?t0.0 = 0 and ?t1.0 = 0
           and data = "\<lparr>req_url = Some ''http://example.com'', req_maxArticles = None\<rparr>"
           and sv = initial_server and st = initial_scraping_stats and n = 10
           and line = "''SAVED: 1_article.json''"]
    by blast
qed

section \<open>The endpoints\<close>

text \<open>
  Claim C1, as amended. The three endpoints that start a job, \<open>/start_scraping\<close>,
  \<open>/convert_to_text\<close> and \<open>/generate_summaries\<close>, answer 400 with an error body
  whenever the flag of their kind is set, and leave the whole state as it was.
  \<open>/stop_scraping\<close> has no such gate: it always answers 200 with the status
  \<open>stopped\<close> and clears the flag of the scrape job.
\<close>

theorem active_job_rejected:
  "(scraping_active sv \<longrightarrow>
      start_scraping t0 t1 data sv =
        (\<lparr>status = 400, body = JObj [(''error'', JStr ''Scraping already in progress'')]\<rparr>, sv))
   \<and> (conversion_active sv \<longrightarrow>
      convert_to_text sdata sv =
        (\<lparr>status = 400, body = JObj [(''error'', JStr ''Conversion already in progress'')]\<rparr>, sv))
   \<and> (summarization_active sv \<longrightarrow>
      generate_summaries sdata sv =
        (\<lparr>status = 400, body = JObj [(''error'', JStr ''Summarization already in progress'')]\<rparr>,
         sv))
   \<and> fst (stop_scraping sv) = \<lparr>status = 200, body = JObj [(''status'', JStr ''stopped'')]\<rparr>
   \<and> \<not> scraping_active (snd (stop_scraping sv))"
  by (simp add: start_scraping_def convert_to_text_def generate_summaries_def
        stop_scraping_def error_response_def)

theorem active_job_rejected_witness:
  "scraping_active (initial_server\<lparr>scraping_active := True\<rparr>)
   \<and> start_scraping 0 0 \<lparr>req_url = Some ''http://example.com'', req_maxArticles = Some 5\<rparr>
        (initial_server\<lparr>scraping_active := True\<rparr>) =
        (\<lparr>status = 400, body = JObj [(''error'', JStr ''Scraping already in progress'')]\<rparr>,
         initial_server\<lparr>scraping_active := True\<rparr>)"
proof -
  have h: "scraping_active (initial_server\<lparr>scraping_active := True\<rparr>)"
    by simp
  show ?thesis
    using h active_job_rejected
      [where sv = "initial_server\<lparr>scraping_active := True\<rparr>" and ?t0.0 = 0 and ?t1.0 = 0
         and data = "\<lparr>req_url = Some ''http://example.com'', req_maxArticles = Some 5\<rparr>"]
    by blast
qed

text \<open>
  The claim as first stated counts \<open>/stop_scraping\<close> among the gated endpoints. After
  a \<open>/start_scraping\<close> request on the initial state the scrape flag is set, and a
  \<open>/stop_scraping\<close> request then answers 200 and clears the flag.
\<close>

theorem stop_scraping_not_gated_counterexample:
  "scraping_active (snd (start_scraping 0 0
       \<lparr>req_url = Some ''http://example.com'', req_maxArticles = None\<rparr> initial_server))
   \<and> status (fst (stop_scraping (snd (start_scraping 0 0
       \<lparr>req_url = Some ''http://example.com'', req_maxArticles = None\<rparr> initial_server)))) = 200
   \<and> \<not> scraping_active (snd (stop_scraping (snd (start_scraping 0 0
       \<lparr>req_url = Some ''http://example.com'', req_maxArticles = None\<rparr> initial_server))))"
  by code_simp

text \<open>
  Claim C8. When no job of the kind is active, a \<open>/start_scraping\<close> request whose
  \<open>url\<close> is missing or empty, and a \<open>/convert_to_text\<close> or \<open>/generate_summaries\<close>
  request whose \<open>sourceSession\<close> is missing or empty, is answered 400 with an error
  body; the state is left as it was, so no job is created or started and the
  status record, the log buffer and the flag are unchanged.
\<close>

theorem missing_input_rejected:
  "(\<not> scraping_active sv \<and> (req_url data = None \<or> req_url data = Some []) \<longrightarrow>
      start_scraping t0 t1 data sv =
        (\<lparr>status = 400, body = JObj [(''error'', JStr ''URL is required'')]\<rparr>, sv))
   \<and> (\<not> conversion_active sv
        \<and> (req_sourceSession sdata = None \<or> req_sourceSession sdata = Some []) \<longrightarrow>
      convert_to_text sdata sv =
        (\<lparr>status = 400, body = JObj [(''error'', JStr ''sourceSession is required'')]\<rparr>, sv))
   \<and> (\<not> summarization_active sv
        \<and> (req_sourceSession sdata = None \<or> req_sourceSession sdata = Some []) \<longrightarrow>
      generate_summaries sdata sv =
        (\<lparr>status = 400, body = JObj [(''error'', JStr ''sourceSession is required'')]\<rparr>, sv))"
proof (intro conjI impI)
  assume "\<not> scraping_active sv \<and> (req_url data = None \<or> req_url data = Some [])"
  then show "start_scraping t0 t1 data sv =
      (\<lparr>status = 400, body = JObj [(''error'', JStr ''URL is required'')]\<rparr>, sv)"
    by (auto simp: start_scraping_def error_response_def Let_def)
next
  assume "\<not> conversion_active sv
          \<and> (req_sourceSession sdata = None \<or> req_sourceSession sdata = Some [])"
  then show "convert_to_text sdata sv =
      (\<lparr>status = 400, body = JObj [(''error'', JStr ''sourceSession is required'')]\<rparr>, sv)"
    by (auto simp: convert_to_text_def error_response_def Let_def)
next
  assume "\<not> summarization_active sv
          \<and> (req_sourceSession sdata = None \<or> req_sourceSession sdata = Some [])"
  then show "generate_summaries sdata sv =
      (\<lparr>status = 400, body = JObj [(''error'', JStr ''sourceSession is required'')]\<rparr>, sv)"
    by (auto simp: generate_summaries_def error_response_def Let_def)
qed

theorem missing_input_rejected_witness:
  "\<not> scraping_active initial_server
   \<and> start_scraping 0 0 \<lparr>req_url = Some [], req_maxArticles = Some 5\<rparr> initial_server =
        (\<lparr>status = 400, body = JObj [(''error'', JStr ''URL is required'')]\<rparr>, initial_server)
   \<and> convert_to_text \<lparr>req_sourceSession = None\<rparr> initial_server =
        (\<lparr>status = 400, body = JObj [(''error'', JStr ''sourceSession is required'')]\<rparr>,
         initial_server)"
proof -
  have h: "\<not> scraping_active initial_server" "\<not> conversion_active initial_server"
    by (simp_all add: initial_server_def)
  have u: "req_url \<lparr>req_url = Some [], req_maxArticles = Some 5\<rparr> = Some []"
    "req_sourceSession \<lparr>req_sourceSession = None\<rparr> = None"
    by simp_all
  show ?thesis
    using h u missing_input_rejected
      [where sv = initial_server and ?t0.0 = 0 and ?t1.0 = 0
         and data = "\<lparr>req_url = Some [], req_maxArticles = Some 5\<rparr>"
         and sdata = "\<lparr>req_sourceSession = None\<rparr>"]
    by blast
qed

section \<open>Listing a bucket one level deep\<close>

lemma rstrip_slash_name: "CHR ''/'' \<notin> set n \<Longrightarrow> rstrip_slash (n @ ''/'') = n"
proof -
  assume a: "CHR ''/'' \<notin> set n"
  have "dropWhile (\<lambda>c. c = CHR ''/'') (rev n) = rev n"
  proof (cases n rule: rev_cases)
    case Nil
    then show ?thesis by simp
  next
    case (snoc ys y)
    then show ?thesis using a by auto
  qed
  then show ?thesis
    by (simp add: rstrip_slash_def)
qed

lemma concat_chars: "concat (chars s) = s"
  by (induction s rule: chars.induct) simp_all

lemma takeWhile_append_stop: "\<not> P a \<Longrightarrow> takeWhile P (cs @ a # l) = takeWhile P cs"
  by (induction cs) auto

lemma dropWhile_append_stop:
  "\<not> P a \<Longrightarrow> dropWhile P (cs @ a # l) = dropWhile P cs @ a # l"
  by (induction cs) auto

lemma chars_append:
  "s = [] \<or> \<not> is_continuation (hd s) \<Longrightarrow> chars (p @ s) = chars p @ chars s"
proof (induction p rule: chars.induct)
  case 1
  then show ?case by simp
next
  case (2 c cs)
  let ?rest = "dropWhile is_continuation cs"
  have t: "takeWhile is_continuation (cs @ s) = takeWhile is_continuation cs"
    using "2.prems" by (cases s) (simp_all add: takeWhile_append_stop)
  have d: "dropWhile is_continuation (cs @ s) = ?rest @ s"
    using "2.prems" by (cases s) (simp_all add: dropWhile_append_stop)
  show ?case
    using "2.IH" [OF "2.prems"] by (simp add: t d)
qed

lemma slice_from_append:
  "s = [] \<or> \<not> is_continuation (hd s) \<Longrightarrow> slice_from (py_len p) (p @ s) = s"
  by (simp add: slice_from_def py_len_def chars_append concat_chars)

lemma not_continuation_slash: "\<not> is_continuation (CHR ''/'')"
  by (simp add: is_continuation_def)

text \<open>
  Claim C7. Let \<open>x\<close> be the requested prefix (the empty string when the request
  has none) and \<open>p\<close> be \<open>x\<close> with \<open>/\<close> appended when \<open>x\<close> is non-empty and does
  not end in \<open>/\<close>. Let the service answer the listing for \<open>p\<close> with the common
  prefixes \<open>p + n + /\<close> for the names \<open>n\<close> of a list, none of which holds a \<open>/\<close>
  (or begins inside a character). Then \<open>/list_bucket\<close> answers 200 with one folder
  for each of these names, named \<open>n\<close>, and with one file for each listed object
  whose key is not \<open>p\<close> and whose key, after its first \<open>len(p)\<close> characters, holds
  no \<open>/\<close>; a file is reported with that rest of the key as its name, its full
  key, its size and its last-modified time in ISO format. Folders and files come
  in the order of the listing.
\<close>

theorem list_bucket_partition:
  "x = (case req_prefix data of None \<Rightarrow> [] | Some y \<Rightarrow> y) \<Longrightarrow>
   p = (if x \<noteq> [] \<and> \<not> suffix ''/'' x then x @ ''/'' else x) \<Longrightarrow>
   list_objects_v2 (req_bucket data) p = Inr r \<Longrightarrow>
   CommonPrefixes r = map (\<lambda>n. p @ n @ ''/'') names \<Longrightarrow>
   \<forall>n \<in> set names. CHR ''/'' \<notin> set n \<and> (n \<noteq> [] \<longrightarrow> \<not> is_continuation (hd n)) \<Longrightarrow>
   list_bucket isoformat list_objects_v2 data =
     \<lparr>status = 200,
      body = JObj
        [(''folders'', JList (map (\<lambda>n. JObj [(''name'', JStr n)]) names)),
         (''files'',
          JList (map (\<lambda>obj. JObj [(''name'', JStr (slice_from (py_len p) (Key obj))),
                                   (''key'', JStr (Key obj)),
                                   (''size'', JInt (Size obj)),
                                   (''lastModified'', JStr (isoformat (LastModified obj)))])
            (filter (\<lambda>obj. Key obj \<noteq> p
                         \<and> CHR ''/'' \<notin> set (slice_from (py_len p) (Key obj)))
               (Contents r))))]\<rparr>"
proof -
  assume x: "x = (case req_prefix data of None \<Rightarrow> [] | Some y \<Rightarrow> y)"
    and p: "p = (if x \<noteq> [] \<and> \<not> suffix ''/'' x then x @ ''/'' else x)"
    and r: "list_objects_v2 (req_bucket data) p = Inr r"
    and cps: "CommonPrefixes r = map (\<lambda>n. p @ n @ ''/'') names"
    and names: "\<forall>n \<in> set names. CHR ''/'' \<notin> set n \<and> (n \<noteq> [] \<longrightarrow> \<not> is_continuation (hd n))"
  have np: "normalise_prefix (case req_prefix data of None \<Rightarrow> [] | Some y \<Rightarrow> y) = p"
    using x p by (simp add: normalise_prefix_def)
  have fold: "folder_entry p (p @ n @ ''/'') = JObj [(''name'', JStr n)]" if "n \<in> set names" for n
  proof -
    from that names have n: "CHR ''/'' \<notin> set n" "n \<noteq> [] \<longrightarrow> \<not> is_continuation (hd n)"
      by auto
    have "n @ ''/'' = [] \<or> \<not> is_continuation (hd (n @ ''/''))"
      using n(2) not_continuation_slash by (cases n) simp_all
    then have "slice_from (py_len p) (p @ n @ ''/'') = n @ ''/''"
      by (rule slice_from_append)
    then show ?thesis
      using n(1) by (simp add: folder_entry_def rstrip_slash_name)
  qed
  have folders: "map (folder_entry p) (CommonPrefixes r) = map (\<lambda>n. JObj [(''name'', JStr n)]) names"
    unfolding cps using fold by (simp add: comp_def)
  show ?thesis
    using r folders unfolding list_bucket_def Let_def np
    by (simp add: file_entry_def comp_def)
qed

theorem list_bucket_partition_witness:
  "list_bucket (\<lambda>t. t)
     (\<lambda>b q. if q = ''run1/'' then
        Inr \<lparr>CommonPrefixes = [''run1/img/''],
             Contents = [\<lparr>Key = ''run1/'', Size = 0, LastModified = ''2024-01-01T00:00:00''\<rparr>,
                         \<lparr>Key = ''run1/a.json'', Size = 12,
                          LastModified = ''2024-01-02T00:00:00''\<rparr>]\<rparr>
        else Inl (Exception ''unexpected prefix''))
     \<lparr>req_bucket = Some ''bockscraper'', req_prefix = Some ''run1''\<rparr> =
   \<lparr>status = 200,
    body = JObj
      [(''folders'', JList [JObj [(''name'', JStr ''img'')]]),
       (''files'',
        JList [JObj [(''name'', JStr ''a.json''), (''key'', JStr ''run1/a.json''),
                     (''size'', JInt 12), (''lastModified'', JStr ''2024-01-02T00:00:00'')]])]\<rparr>"
proof -
  let ?data = "\<lparr>req_bucket = Some ''bockscraper'', req_prefix = Some ''run1''\<rparr>"
  let ?r = "\<lparr>CommonPrefixes = [''run1/img/''],
             Contents = [\<lparr>Key = ''run1/'', Size = 0, LastModified = ''2024-01-01T00:00:00''\<rparr>,
                         \<lparr>Key = ''run1/a.json'', Size = 12,
                          LastModified = ''2024-01-02T00:00:00''\<rparr>]\<rparr>"
  let ?lister = "\<lambda>(b :: string option) q. if q = ''run1/'' then Inr ?r
                 else Inl (Exception ''unexpected prefix'')"
  have x: "''run1'' = (case req_prefix ?data of None \<Rightarrow> [] | Some y \<Rightarrow> y)"
    by simp
  have p: "''run1/'' = (if ''run1'' \<noteq> [] \<and> \<not> suffix ''/'' ''run1'' then ''run1'' @ ''/''
                        else ''run1'')"
    by code_simp
  have r: "?lister (req_bucket ?data) ''run1/'' = Inr ?r"
    by simp
  have cps: "CommonPrefixes ?r = map (\<lambda>n. ''run1/'' @ n @ ''/'') [''img'']"
    by simp
  have n: "\<forall>n \<in> set [''img'']. CHR ''/'' \<notin> set n \<and> (n \<noteq> [] \<longrightarrow> \<not> is_continuation (hd n))"
    by (simp add: is_continuation_def)
  have s1: "slice_from (py_len ''run1/'') ''run1/'' = []"
    by code_simp
  have s2: "slice_from (py_len ''run1/'') ''run1/a.json'' = ''a.json''"
    by code_simp
  show ?thesis
    using list_bucket_partition [where isoformat = "\<lambda>t. t" and ?list_objects_v2.0 = ?lister,
        OF x p r cps n]
    by (simp add: s1 s2)
qed

section \<open>Progress of the scrape job\<close>

text \<open>
  Claim C2, as amended. While the stored progress is at most 100, no per-line
  update writes a smaller progress than the one stored, and the value it writes is
  again at most 100; so over any sequence of lines progress never decreases, and
  from the 15 stored when the session is announced it stays between 15 and 100.
  The update at the end of a successful run writes 100, which is not smaller
  either. The update at the end of a failed or stopped run, and the handler of an
  exception, write 0.
\<close>

theorem progress_monotone_until_failure:
  "(progress st \<le> 100 \<longrightarrow>
      progress st \<le> progress (snd (update_stats_from_log n line st))
      \<and> progress (snd (update_stats_from_log n line st)) \<le> 100)
   \<and> (progress (scraping_stats sv) \<le> 100 \<longrightarrow>
      progress (scraping_stats sv)
        \<le> progress (scraping_stats (snd (snd (stream_output c j evs sv))))
      \<and> progress (scraping_stats (snd (snd (stream_output c j evs sv)))) \<le> 100)
   \<and> 15 \<le> progress (scraping_stats
              (snd (snd (stream_output c j evs (run_announce c j (run_start c sv))))))
   \<and> progress (scraping_stats
         (snd (snd (stream_output c j evs (run_announce c j (run_start c sv)))))) \<le> 100
   \<and> (returncode env = 0 \<and> is_running j \<longrightarrow>
        progress (scraping_stats (run_finish c env j sv)) = 100)
   \<and> (\<not> (returncode env = 0 \<and> is_running j) \<longrightarrow>
        progress (scraping_stats (run_finish c env j sv)) = 0)
   \<and> progress (scraping_stats (scraping_failed c e sv)) = 0"
proof (intro conjI impI)
  assume "progress st \<le> 100"
  then show "progress st \<le> progress (snd (update_stats_from_log n line st))"
    and "progress (snd (update_stats_from_log n line st)) \<le> 100"
    by (rule update_stats_progress_mono, rule update_stats_progress_le)
next
  assume a: "progress (scraping_stats sv) \<le> 100"
  show "progress (scraping_stats sv)
          \<le> progress (scraping_stats (snd (snd (stream_output c j evs sv))))"
    and "progress (scraping_stats (snd (snd (stream_output c j evs sv)))) \<le> 100"
    using stream_output_between [of "progress (scraping_stats sv)" sv c j evs] a by simp_all
next
  let ?s2 = "run_announce c j (run_start c sv)"
  have "15 \<le> progress (scraping_stats ?s2) \<and> progress (scraping_stats ?s2) \<le> 100"
    by (simp add: run_announce_stats)
  then show "15 \<le> progress (scraping_stats (snd (snd (stream_output c j evs ?s2))))"
    and "progress (scraping_stats (snd (snd (stream_output c j evs ?s2)))) \<le> 100"
    using stream_output_between [of 15 ?s2 c j evs] by simp_all
next
  assume "returncode env = 0 \<and> is_running j"
  then show "progress (scraping_stats (run_finish c env j sv)) = 100"
    by (simp add: run_finish_stats)
next
  assume "\<not> (returncode env = 0 \<and> is_running j)"
  then show "progress (scraping_stats (run_finish c env j sv)) = 0"
    by (simp add: run_finish_stats)
next
  show "progress (scraping_stats (scraping_failed c e sv)) = 0"
    by (simp add: scraping_failed_stats)
qed

theorem progress_monotone_until_failure_witness:
  "progress (initial_scraping_stats\<lparr>progress := 15\<rparr>) \<le> 100
   \<and> progress (initial_scraping_stats\<lparr>progress := 15\<rparr>)
       \<le> progress (snd (update_stats_from_log 10 ''SAVED: 1_article.json''
                          (initial_scraping_stats\<lparr>progress := 15\<rparr>)))
   \<and> progress (snd (update_stats_from_log 10 ''SAVED: 1_article.json''
                      (initial_scraping_stats\<lparr>progress := 15\<rparr>))) = 21"
proof -
  have h: "progress (initial_scraping_stats\<lparr>progress := 15\<rparr>) \<le> 100"
    by simp
  have v: "progress (snd (update_stats_from_log 10 ''SAVED: 1_article.json''
                      (initial_scraping_stats\<lparr>progress := 15\<rparr>))) = 21"
    by code_simp
  show ?thesis
    using h v progress_monotone_until_failure
      [where st = "initial_scraping_stats\<lparr>progress := 15\<rparr>" and n = 10
         and line = "''SAVED: 1_article.json''"]
    by blast
qed

text \<open>
  The claim as first stated also covers the updates at the end of a run. A run whose
  subprocess prints one line and exits with status 1 stores 15 when the session is
  announced and 0 when it ends.
\<close>

theorem progress_reset_counterexample:
  "progress (scraping_stats
      (run_announce str_nat (start (LocalScrapingJob ''http://example.com'' 10 0 0))
         (run_start str_nat initial_server))) = 15
   \<and> progress (scraping_stats (snd
       (run_scraping str_nat
          \<lparr>S3_BUCKET_NAME = ''bockscraper'', popen_raises = None,
           events = [Line ''Fetching page 1\<newline>''], returncode = 1\<rparr>
          (start (LocalScrapingJob ''http://example.com'' 10 0 0)) initial_server))) = 0"
  by code_simp

subsection \<open>The interpolation bands\<close>

lemma pow2_pos: "0 < pow2 z"
  by (simp add: pow2_def)

lemma pow2_nat: "pow2 (int n) = 2 ^ n"
  by (simp add: pow2_def)

lemma pow2_Suc: "pow2 (z + 1) = 2 * pow2 z"
proof (cases "0 \<le> z")
  case True
  then show ?thesis by (simp add: pow2_def nat_add_distrib)
next
  case False
  then have "nat (- z) = Suc (nat (- (z + 1)))" by simp
  then show ?thesis using False by (simp add: pow2_def)
qed

lemma pow2_add_nat: "pow2 (z + int n) = pow2 z * 2 ^ n"
proof (induction n)
  case 0
  then show ?case by simp
next
  case (Suc n)
  have "z + int (Suc n) = (z + int n) + 1"
    by simp
  then have "pow2 (z + int (Suc n)) = 2 * pow2 (z + int n)"
    by (simp only: pow2_Suc)
  then show ?case using Suc by simp
qed

lemma pow2_mono: "a \<le> b \<Longrightarrow> pow2 a \<le> pow2 b"
proof -
  assume "a \<le> b"
  then obtain n where b: "b = a + int n"
    by (metis zle_iff_zadd)
  have "(1::rat) \<le> 2 ^ n" by (rule one_le_power) simp
  then have "pow2 a * 1 \<le> pow2 a * 2 ^ n"
    using pow2_pos [of a] by (intro mult_left_mono) simp_all
  then show ?thesis
    unfolding b pow2_add_nat by simp
qed

lemma bit_length_nonneg: "0 \<le> bit_length n"
proof (induction n rule: bit_length.induct)
  case (1 n)
  then show ?case by (subst bit_length.simps) simp
qed

lemma bit_length_pos: "0 < n \<Longrightarrow> 1 \<le> bit_length n"
  using bit_length_nonneg [of "n div 2"] by (subst bit_length.simps) simp

lemma bit_length_bounds:
  "0 < n \<Longrightarrow> 2 ^ nat (bit_length n - 1) \<le> n \<and> n < 2 ^ nat (bit_length n)"
proof (induction n rule: bit_length.induct)
  case (1 n)
  show ?case
  proof (cases "n = 1")
    case True
    have "bit_length 1 = 1"
      by (simp add: bit_length.simps [of 1] bit_length.simps [of 0])
    with True show ?thesis by simp
  next
    case False
    with "1.prems" have h: "0 < n div 2" by simp
    have nle: "\<not> n \<le> 0" using "1.prems" by simp
    from "1.IH" [OF nle h]
    have ih: "2 ^ nat (bit_length (n div 2) - 1) \<le> n div 2"
      "n div 2 < 2 ^ nat (bit_length (n div 2))" by simp_all
    have bl: "bit_length n = 1 + bit_length (n div 2)"
      using "1.prems" by (subst bit_length.simps) simp
    have pos: "1 \<le> bit_length (n div 2)"
      using h by (rule bit_length_pos)
    have e1: "nat (bit_length n - 1) = Suc (nat (bit_length (n div 2) - 1))"
      using bl pos by simp
    have e2: "nat (bit_length n) = Suc (nat (bit_length (n div 2)))"
      using bl pos by simp
    have "2 * 2 ^ nat (bit_length (n div 2) - 1) \<le> 2 * (n div 2)"
      using ih(1) by simp
    also have "\<dots> \<le> n" by simp
    finally have lo: "2 ^ nat (bit_length n - 1) \<le> n"
      unfolding e1 by simp
    have "n div 2 + 1 \<le> 2 ^ nat (bit_length (n div 2))"
      using ih(2) by simp
    then have "2 * (n div 2) + 2 \<le> 2 * 2 ^ nat (bit_length (n div 2))"
      by simp
    moreover have "n < 2 * (n div 2) + 2"
      by presburger
    ultimately have hi: "n < 2 ^ nat (bit_length n)"
      unfolding e2 by simp
    from lo hi show ?thesis by simp
  qed
qed

lemma floor_log2_bounds:
  assumes "0 < x"
  shows "pow2 (floor_log2 x) \<le> x" and "x < pow2 (floor_log2 x + 1)"
proof -
  obtain p q where pq: "quotient_of x = (p, q)"
    by (cases "quotient_of x")
  have q: "0 < q" using pq by (rule quotient_of_denom_pos)
  have x: "x = of_int p / of_int q" using pq by (rule quotient_of_div)
  have p: "0 < p" using assms q x by (simp add: zero_less_divide_iff)
  define bp where "bp = nat (bit_length p - 1)"
  define bq where "bq = nat (bit_length q - 1)"
  have blp: "bit_length p = int bp + 1"
    using bit_length_pos [OF p] by (simp add: bp_def)
  have blq: "bit_length q = int bq + 1"
    using bit_length_pos [OF q] by (simp add: bq_def)
  have pb: "(2::rat) ^ bp \<le> of_int p" "(of_int p :: rat) < 2 ^ Suc bp"
  proof -
    have "(2::int) ^ bp \<le> p" "p < (2::int) ^ Suc bp"
      using bit_length_bounds [OF p] unfolding blp by (simp_all add: nat_add_distrib)
    then show "(2::rat) ^ bp \<le> of_int p" "(of_int p :: rat) < 2 ^ Suc bp"
      by (metis of_int_le_iff of_int_numeral of_int_power,
          metis of_int_less_iff of_int_numeral of_int_power)
  qed
  have qb: "(2::rat) ^ bq \<le> of_int q" "(of_int q :: rat) < 2 ^ Suc bq"
  proof -
    have "(2::int) ^ bq \<le> q" "q < (2::int) ^ Suc bq"
      using bit_length_bounds [OF q] unfolding blq by (simp_all add: nat_add_distrib)
    then show "(2::rat) ^ bq \<le> of_int q" "(of_int q :: rat) < 2 ^ Suc bq"
      by (metis of_int_le_iff of_int_numeral of_int_power,
          metis of_int_less_iff of_int_numeral of_int_power)
  qed
  let ?d = "bit_length p - bit_length q"
  have d: "?d = int bp - int bq" using blp blq by simp
  have qpos: "(0::rat) < of_int q" using q by simp
  \<comment> \<open>\<open>2^(d-1) < x < 2^(d+1)\<close>\<close>
  have low: "pow2 (?d - 1) \<le> x"
  proof -
    have i: "?d - 1 + int (Suc bq) = int bp" using d by simp
    have "pow2 (?d - 1) * 2 ^ Suc bq = pow2 (?d - 1 + int (Suc bq))"
      by (simp only: pow2_add_nat)
    also have "\<dots> = pow2 (int bp)" by (simp only: i)
    also have "\<dots> = 2 ^ bp" by (rule pow2_nat)
    finally have e: "pow2 (?d - 1) * 2 ^ Suc bq = 2 ^ bp" .
    have "pow2 (?d - 1) * of_int q \<le> pow2 (?d - 1) * 2 ^ Suc bq"
      using qb(2) pow2_pos [of "?d - 1"] by (intro mult_left_mono) simp_all
    also have "\<dots> \<le> of_int p" unfolding e by (rule pb(1))
    finally show ?thesis
      using qpos unfolding x by (simp add: pos_le_divide_eq)
  qed
  have high: "x < pow2 (?d + 1)"
  proof -
    have i: "?d + 1 + int bq = int (Suc bp)" using d by simp
    have "pow2 (?d + 1) * 2 ^ bq = pow2 (?d + 1 + int bq)"
      by (simp only: pow2_add_nat)
    also have "\<dots> = pow2 (int (Suc bp))" by (simp only: i)
    also have "\<dots> = 2 ^ Suc bp" by (rule pow2_nat)
    finally have e: "pow2 (?d + 1) * 2 ^ bq = 2 ^ Suc bp" .
    have "of_int p < pow2 (?d + 1) * 2 ^ bq" unfolding e by (rule pb(2))
    also have "\<dots> \<le> pow2 (?d + 1) * of_int q"
      using qb(1) pow2_pos [of "?d + 1"] by (intro mult_left_mono) simp_all
    finally show ?thesis
      using qpos unfolding x by (simp add: pos_divide_less_eq)
  qed
  show "pow2 (floor_log2 x) \<le> x"
    using low by (simp add: floor_log2_def pq Let_def)
  show "x < pow2 (floor_log2 x + 1)"
    using high by (auto simp: floor_log2_def pq Let_def not_le)
qed

lemma round_half_even_bounds:
  assumes "0 \<le> m"
  shows "0 \<le> round_half_even m" and "of_int (round_half_even m) \<le> 2 * m"
proof -
  let ?f = "\<lfloor>m\<rfloor>"
  have f0: "0 \<le> ?f" using assms by simp
  have fm: "of_int ?f \<le> m" by simp
  show "0 \<le> round_half_even m"
    using f0 by (simp add: round_half_even_def Let_def)
  have up: "\<not> m - of_int ?f < 1 / 2 \<Longrightarrow> of_int (?f + 1) \<le> 2 * m"
  proof -
    assume "\<not> m - of_int ?f < 1 / 2"
    then have "of_int ?f + 1 / 2 \<le> m" by simp
    moreover have "(0::rat) \<le> of_int ?f" using f0 by simp
    ultimately have "of_int ?f + 1 \<le> 2 * m" by linarith
    then show ?thesis by simp
  qed
  have lo: "of_int ?f \<le> 2 * m" using fm assms by linarith
  show "of_int (round_half_even m) \<le> 2 * m"
    unfolding round_half_even_def Let_def using up lo by auto
qed

lemma round_binary64_finite:
  assumes "0 \<le> x" and "2 * x < pow2 1024"
  shows "\<exists>y. round_binary64 x = Fin y \<and> 0 \<le> y \<and> y \<le> 2 * x"
proof (cases "x = 0")
  case True
  then show ?thesis by (simp add: round_binary64_def)
next
  case False
  with assms have xp: "0 < x" by simp
  define q where "q = max (floor_log2 \<bar>x\<bar> - 52) (- 1074)"
  define y where "y = of_int (round_half_even (\<bar>x\<bar> / pow2 q)) * pow2 q"
  have m0: "0 \<le> \<bar>x\<bar> / pow2 q"
    using pow2_pos [of q] by simp
  have y0: "0 \<le> y"
    unfolding y_def using round_half_even_bounds(1) [OF m0] pow2_pos [of q]
    by simp
  have "of_int (round_half_even (\<bar>x\<bar> / pow2 q)) * pow2 q \<le> (2 * (\<bar>x\<bar> / pow2 q)) * pow2 q"
    using round_half_even_bounds(2) [OF m0] pow2_pos [of q]
    by (intro mult_right_mono) simp_all
  then have y2: "y \<le> 2 * x"
    unfolding y_def using pow2_pos [of q] xp by simp
  have no: "\<not> (y \<noteq> 0 \<and> 1024 \<le> floor_log2 y)"
  proof
    assume o: "y \<noteq> 0 \<and> 1024 \<le> floor_log2 y"
    with y0 have "0 < y" by simp
    then have "pow2 (floor_log2 y) \<le> y" by (rule floor_log2_bounds(1))
    moreover have "pow2 1024 \<le> pow2 (floor_log2 y)"
      using o by (intro pow2_mono) simp
    ultimately show False using y2 assms(2) by linarith
  qed
  have "round_binary64 x = Fin y"
    using xp no unfolding round_binary64_def Let_def q_def [symmetric] y_def [symmetric]
    by simp
  with y0 y2 show ?thesis by simp
qed










lemma py_int_min_defined:
  "py_int (py_min (Fin s) k) = Inr (if of_int k < s then k else trunc s)"
  by (simp add: py_min_def)

lemma pow2_1024: "pow2 1024 = 2 ^ 24 * 2 ^ 1000"
proof -
  have "(2::rat) ^ 1024 = 2 ^ (24 + 1000)" by simp
  then show ?thesis
    unfolding power_add by (simp add: pow2_def)
qed

lemma band_defined:
  assumes "0 < n" "0 \<le> a" "a \<le> 2 ^ 1000" "0 \<le> c0" "c0 \<le> 100" "0 \<le> c1" "c1 \<le> 100"
  shows "\<exists>r m s. py_truediv a n = Inr (Fin r) \<and> float_mul (Fin r) c1 = Fin m
               \<and> float_add c0 (Fin m) = Fin s"
proof -
  define B :: rat where "B = 2 ^ 1000"
  have B1: "1 \<le> B" unfolding B_def by (rule one_le_power) simp
  have top: "pow2 1024 = 16777216 * B"
    unfolding B_def pow2_1024 by simp
  have n1: "(1::rat) \<le> of_int n" using assms(1) by simp
  have x0: "(0::rat) \<le> of_int a / of_int n"
    using assms by simp
  have "(of_int a :: rat) / of_int n \<le> of_int a"
    using n1 assms(2) by (simp add: divide_le_eq mult_le_cancel_left1)
  also have "\<dots> \<le> B"
    unfolding B_def using assms(3) by (metis of_int_le_iff of_int_numeral of_int_power)
  finally have xb: "(of_int a :: rat) / of_int n \<le> B" .
  have "2 * ((of_int a :: rat) / of_int n) < pow2 1024"
    using xb B1 unfolding top by linarith
  from round_binary64_finite [OF x0 this]
  obtain r where r: "round_binary64 (of_int a / of_int n) = Fin r" "0 \<le> r"
    "r \<le> 2 * (of_int a / of_int n)" by blast
  have rb: "r \<le> 2 * B" using r(3) xb by linarith
  have t: "py_truediv a n = Inr (Fin r)"
    using assms(1) r(1) by (simp add: py_truediv_def)
  have m0: "0 \<le> r * c1" using r(2) assms by simp
  have "r * c1 \<le> (2 * B) * 100"
    using rb assms(6,7) r(2) B1 by (intro mult_mono) simp_all
  then have mc: "r * c1 \<le> 200 * B" by simp
  then have "2 * (r * c1) < pow2 1024"
    using B1 unfolding top by linarith
  from round_binary64_finite [OF m0 this]
  obtain m where m: "round_binary64 (r * c1) = Fin m" "0 \<le> m" "m \<le> 2 * (r * c1)" by blast
  have mb: "m \<le> 400 * B"
    using m(3) mc by linarith
  have s0: "0 \<le> c0 + m" using m(2) assms by simp
  have "2 * c0 + 2 * m < 16777216 * B"
    using mb assms(5) B1 by linarith
  then have "2 * (c0 + m) < pow2 1024"
    unfolding top by (simp add: distrib_left)
  from round_binary64_finite [OF s0 this]
  obtain s where s: "round_binary64 (c0 + m) = Fin s" by blast
  show ?thesis using t m(1) s by simp
qed

lemma article_progress_defined:
  assumes "0 < n" "0 \<le> a" "a \<le> 2 ^ 1000"
  shows "\<exists>p. article_progress a n = Inr p"
proof -
  from band_defined [OF assms, of 15 65]
  obtain r m s where "py_truediv a n = Inr (Fin r)" "float_mul (Fin r) 65 = Fin m"
    "float_add 15 (Fin m) = Fin s" by auto
  then show ?thesis
    by (simp add: article_progress_def py_int_min_defined)
qed

lemma image_progress_defined:
  assumes "0 < n" "0 \<le> a" "a \<le> 2 ^ 1000"
  shows "\<exists>p. image_progress a n = Inr p"
proof -
  from band_defined [OF assms, of 80 15]
  obtain r m s where "py_truediv a n = Inr (Fin r)" "float_mul (Fin r) 15 = Fin m"
    "float_add 80 (Fin m) = Fin s" by auto
  then show ?thesis
    by (simp add: image_progress_def py_int_min_defined)
qed


















section \<open>Failures inside the workers\<close>






















end
